theory Spec2Isabelle
  imports Main
begin

section \<open>The state machine factory of \<^verbatim>\<open>src/js/internalgel.js\<close>\<close>

text \<open>
  \<^verbatim>\<open>StateMachineFactory\<close> keeps one closure variable, \<^verbatim>\<open>var transitions = []\<close>: a JavaScript
  array used as a dictionary from transition names to rows, each row again an array
  (\<^verbatim>\<open>transitions[name] = []\<close>) used as a dictionary from states to
  \<^verbatim>\<open>{endState, action}\<close> objects. The factory's code is strict (\<^verbatim>\<open>'use strict'\<close>).
  Names and states are strings, as the JSDoc of \<^verbatim>\<open>setTransition\<close> types them.
\<close>

subsection \<open>Outcomes of a call\<close>

text \<open>
  A call returns, or throws with the state as it was left at the throw. \<open>Outside\<close> marks
  the executions the embedding does not follow: the ones that write to a built-in object
  of the realm reached through the prototype chain (\<^verbatim>\<open>Array.prototype.push[s] = ...\<close>), or
  read a property of a built-in that is not a row.
\<close>

datatype js_error = TypeError | RangeError

datatype 's outcome = Returns 's | Throws js_error 's | Outside

fun and_then :: "'s outcome \<Rightarrow> ('s \<Rightarrow> 's outcome) \<Rightarrow> 's outcome" where
  "and_then (Returns s) f = f s"
| "and_then (Throws e s) f = Throws e s"
| "and_then Outside f = Outside"

subsection \<open>Arrays used as dictionaries\<close>

text \<open>
  An array object has its own properties, among them \<^verbatim>\<open>length\<close>, and inherits the
  properties of \<^verbatim>\<open>Array.prototype\<close> and \<^verbatim>\<open>Object.prototype\<close>. \<open>own\<close> holds the own
  properties other than \<^verbatim>\<open>length\<close>, \<open>len\<close> the value of \<^verbatim>\<open>length\<close>.
\<close>

record 'v jsarray =
  own :: "string \<rightharpoonup> 'v"
  len :: nat

definition empty_array :: "'v jsarray" where
  "empty_array = \<lparr>own = Map.empty, len = 0\<rparr>"

text \<open>
  The string-named properties every array inherits in a current engine: those of
  \<^verbatim>\<open>Array.prototype\<close> (ECMAScript 2023, 23.1.3) and those of \<^verbatim>\<open>Object.prototype\<close> (20.1.3,
  with the legacy ones of Annex B, \<^verbatim>\<open>__proto__\<close> among them). All of them hold objects
  (functions, or the prototype itself), so all of them are truthy. None is enumerable.
\<close>

definition inherited_keys :: "string list" where
  "inherited_keys =
     [''constructor'', ''at'', ''concat'', ''copyWithin'', ''fill'', ''find'', ''findIndex'',
      ''findLast'', ''findLastIndex'', ''lastIndexOf'', ''pop'', ''push'', ''reverse'',
      ''shift'', ''unshift'', ''slice'', ''sort'', ''splice'', ''includes'', ''indexOf'',
      ''join'', ''keys'', ''entries'', ''values'', ''forEach'', ''filter'', ''flat'',
      ''flatMap'', ''map'', ''every'', ''some'', ''reduce'', ''reduceRight'', ''toReversed'',
      ''toSorted'', ''toSpliced'', ''with'', ''toLocaleString'', ''toString'',
      ''__defineGetter__'', ''__defineSetter__'', ''hasOwnProperty'', ''__lookupGetter__'',
      ''__lookupSetter__'', ''isPrototypeOf'', ''propertyIsEnumerable'', ''valueOf'',
      ''__proto__'']"

text \<open>
  An array index is the canonical decimal form of a number below \<open>2^32 - 1\<close>
  (15.4): defining such a property raises \<^verbatim>\<open>length\<close> above it.
\<close>

definition digit :: "char \<Rightarrow> nat option" where
  "digit c = (let n = (of_char c :: nat) in if 48 \<le> n \<and> n \<le> 57 then Some (n - 48) else None)"

fun decimal :: "nat \<Rightarrow> string \<Rightarrow> nat option" where
  "decimal acc [] = Some acc"
| "decimal acc (c # cs) = (case digit c of None \<Rightarrow> None | Some d \<Rightarrow> decimal (10 * acc + d) cs)"

definition array_index :: "string \<Rightarrow> nat option" where
  "array_index k =
     (case k of
        [] \<Rightarrow> None
      | c # cs \<Rightarrow>
          if c = CHR ''0'' \<and> cs \<noteq> [] then None
          else (case decimal 0 k of
                  None \<Rightarrow> None
                | Some n \<Rightarrow> if n < 4294967295 then Some n else None))"

text \<open>What \<^verbatim>\<open>a[k]\<close> reads: an own property, the length, an inherited built-in, or nothing.\<close>

datatype 'v slot = Own 'v | Number nat | Builtin | Absent

definition get_prop :: "'v jsarray \<Rightarrow> string \<Rightarrow> 'v slot" where
  "get_prop a k =
     (if k = ''length'' then Number (len a)
      else case own a k of
             Some v \<Rightarrow> Own v
           | None \<Rightarrow> if k \<in> set inherited_keys then Builtin else Absent)"

text \<open>
  JavaScript truthiness: rows and entries are objects, hence truthy; a number is truthy
  unless it is zero; \<^verbatim>\<open>undefined\<close> is falsy.
\<close>

fun truthy :: "'v slot \<Rightarrow> bool" where
  "truthy (Own v) = True"
| "truthy (Number n) = (n \<noteq> 0)"
| "truthy Builtin = True"
| "truthy Absent = False"

text \<open>
  \<^verbatim>\<open>a[k] = v\<close> for a key that is neither \<^verbatim>\<open>length\<close> nor \<^verbatim>\<open>__proto__\<close>: the property
  becomes an own one (shadowing an inherited one of that name), and an array index
  raises the length.
\<close>

definition define_prop :: "string \<Rightarrow> 'v \<Rightarrow> 'v jsarray \<Rightarrow> 'v jsarray" where
  "define_prop k v a =
     a\<lparr>own := (own a)(k \<mapsto> v),
       len := (case array_index k of None \<Rightarrow> len a | Some i \<Rightarrow> max (len a) (Suc i))\<rparr>"

subsection \<open>The transition table\<close>

text \<open>
  An entry is the object \<^verbatim>\<open>{endState: endState, action: callback}\<close>. The end state is a
  string and the callback a function, as the JSDoc types them; \<open>'a\<close> is the type of the
  callbacks.
\<close>

record 'a transition =
  endState :: string
  action :: 'a

type_synonym 'a row = "'a transition jsarray"

type_synonym 'a table = "'a row jsarray"

text \<open>
  The inner loop of \<^verbatim>\<open>addPendingTransitions\<close>:
  \<^verbatim>\<open>transitions[name][initialStates[i]] = {endState: endState, action: callback}\<close>
  for each state in turn. \<^verbatim>\<open>transitions[name]\<close> is read anew at every pass. On a row, the
  key \<^verbatim>\<open>length\<close> is the array's length, and assigning an object to it throws a RangeError;
  on a number (the name was \<^verbatim>\<open>length\<close>) strict code throws a TypeError; on an inherited
  built-in the write lands on that built-in.
\<close>

fun set_states :: "string \<Rightarrow> string list \<Rightarrow> 'a transition \<Rightarrow> 'a table \<Rightarrow> 'a table outcome" where
  "set_states name [] e T = Returns T"
| "set_states name (s # ss) e T =
     (case get_prop T name of
        Own r \<Rightarrow>
          if s = ''length'' then Throws RangeError T
          else if s = ''__proto__'' then Outside
          else set_states name ss e (T\<lparr>own := (own T)(name \<mapsto> define_prop s e r)\<rparr>)
      | Number n \<Rightarrow> if s = ''__proto__'' then Outside else Throws TypeError T
      | Builtin \<Rightarrow> Outside
      | Absent \<Rightarrow> Throws TypeError T)"

text \<open>
  \<^verbatim>\<open>if (!transitions[name]) { transitions[name] = []; }\<close>. The test fails for a name
  that has a row, and for an inherited name. It succeeds for the name \<^verbatim>\<open>length\<close> when the
  length is zero; the assignment then stores \<^verbatim>\<open>ToUint32([]) = 0\<close> as the length (an array
  of length zero has no index property to delete).
\<close>

definition ensure_row :: "string \<Rightarrow> 'a table \<Rightarrow> 'a table" where
  "ensure_row name T =
     (if truthy (get_prop T name) then T
      else if name = ''length'' then T\<lparr>len := 0\<rparr>
      else define_prop name empty_array T)"

fun addPendingTransitions ::
  "string list \<Rightarrow> string list \<Rightarrow> string \<Rightarrow> 'a \<Rightarrow> 'a table \<Rightarrow> 'a table outcome" where
  "addPendingTransitions [] initialStates endState' callback T = Returns T"
| "addPendingTransitions (name # names) initialStates endState' callback T =
     and_then
       (set_states name initialStates \<lparr>endState = endState', action = callback\<rparr> (ensure_row name T))
       (addPendingTransitions names initialStates endState' callback)"

definition setTransition :: "string \<Rightarrow> string \<Rightarrow> string \<Rightarrow> 'a \<Rightarrow> 'a table \<Rightarrow> 'a table outcome" where
  "setTransition name initialState endState' callback T =
     addPendingTransitions [name] [initialState] endState' callback T"

definition setTransitions ::
  "string list \<Rightarrow> string list \<Rightarrow> string \<Rightarrow> 'a \<Rightarrow> 'a table \<Rightarrow> 'a table outcome" where
  "setTransitions = addPendingTransitions"

subsection \<open>Runtimes\<close>

text \<open>
  A runtime is the object \<^verbatim>\<open>build\<close> returns: the property \<^verbatim>\<open>currentState\<close> and one
  property per name, holding the closure \<^verbatim>\<open>newTransition(stateMachine, name)\<close>. A closure
  is identified by the runtime it captured and the name.
\<close>

datatype jsval = Undefined | Str string | Closure nat string

type_synonym machine = "string \<rightharpoonup> jsval"

text \<open>
  The world: the factory's table, the runtimes it has built (by reference), and
  whatever else the actions act on.
\<close>

record ('a, 'x) world =
  transitions :: "'a table"
  heap :: "nat \<Rightarrow> machine"
  next_ref :: nat
  ext :: 'x

definition factory :: "'x \<Rightarrow> ('a, 'x) world" where
  "factory x = \<lparr>transitions = empty_array, heap = (\<lambda>r. Map.empty), next_ref = 0, ext = x\<rparr>"

definition on_table ::
  "('a table \<Rightarrow> 'a table outcome) \<Rightarrow> ('a, 'x) world \<Rightarrow> ('a, 'x) world outcome" where
  "on_table f w =
     (case f (transitions w) of
        Returns T \<Rightarrow> Returns (w\<lparr>transitions := T\<rparr>)
      | Throws e T \<Rightarrow> Throws e (w\<lparr>transitions := T\<rparr>)
      | Outside \<Rightarrow> Outside)"

definition current :: "('a, 'x) world \<Rightarrow> nat \<Rightarrow> jsval" where
  "current w r = (case heap w r ''currentState'' of Some v \<Rightarrow> v | None \<Rightarrow> Undefined)"

definition set_current :: "('a, 'x) world \<Rightarrow> nat \<Rightarrow> jsval \<Rightarrow> ('a, 'x) world" where
  "set_current w r v = w\<lparr>heap := (heap w)(r := (heap w r)(''currentState'' \<mapsto> v))\<rparr>"

text \<open>
  The property key a value is turned into. A function is turned into its source text:
  for the closure, lines 14 to 20 of the file from \<^verbatim>\<open>function\<close> to the closing brace, as
  written.
\<close>

definition closure_text :: string where
  "closure_text =
     ''function () {\<newline>''
     @ ''                    if(transitions[name] && transitions[name][stateMachine.currentState]) {\<newline>''
     @ ''                        var transition = transitions[name][stateMachine.currentState];\<newline>''
     @ ''                        stateMachine.currentState = transition.endState;\<newline>''
     @ ''                        transition.action.apply(null, arguments);\<newline>''
     @ ''                    }\<newline>''
     @ ''                }''"

fun to_key :: "jsval \<Rightarrow> string" where
  "to_key Undefined = ''undefined''"
| "to_key (Str s) = s"
| "to_key (Closure r n) = closure_text"

text \<open>
  The closure \<^verbatim>\<open>newTransition(stateMachine, name)\<close>, called with \<open>args\<close>. \<open>run a args\<close> is
  what calling the action \<open>a\<close> with the arguments \<open>args\<close> does to the world; it is called
  once the state has been assigned. A truthy \<^verbatim>\<open>transitions[name][state]\<close> that is not an
  entry (the length of the row, an inherited built-in) has no \<^verbatim>\<open>endState\<close> and no
  \<^verbatim>\<open>action\<close>: the state becomes \<^verbatim>\<open>undefined\<close> and \<^verbatim>\<open>transition.action.apply\<close> throws.
  (The built-ins have no such properties unless a program writes them there, and the
  executions of the factory that write to a built-in end in \<open>Outside\<close>.) A name that reads
  as a truthy value other than a row has no closure, since \<^verbatim>\<open>build\<close> makes closures for
  rows only; the embedding does not follow such a call.
\<close>

definition newTransition ::
  "('a \<Rightarrow> 'v list \<Rightarrow> ('a, 'x) world \<Rightarrow> ('a, 'x) world outcome) \<Rightarrow>
     ('a, 'x) world \<Rightarrow> nat \<Rightarrow> string \<Rightarrow> 'v list \<Rightarrow> ('a, 'x) world outcome" where
  "newTransition run w stateMachine name args =
     (case get_prop (transitions w) name of
        Absent \<Rightarrow> Returns w
      | Number n \<Rightarrow> if n = 0 then Returns w else Outside
      | Builtin \<Rightarrow> Outside
      | Own r \<Rightarrow>
          (case get_prop r (to_key (current w stateMachine)) of
             Absent \<Rightarrow> Returns w
           | Number n \<Rightarrow>
               if n = 0 then Returns w
               else Throws TypeError (set_current w stateMachine Undefined)
           | Builtin \<Rightarrow> Throws TypeError (set_current w stateMachine Undefined)
           | Own transition \<Rightarrow>
               run (action transition) args
                 (set_current w stateMachine (Str (endState transition)))))"

text \<open>
  \<^verbatim>\<open>build\<close>: a new object with \<^verbatim>\<open>currentState\<close>, then, for every enumerable property
  \<^verbatim>\<open>name\<close> of \<^verbatim>\<open>transitions\<close> (the rows; \<^verbatim>\<open>length\<close> and the inherited built-ins are not
  enumerable), \<^verbatim>\<open>stateMachine[name] = newTransition(stateMachine, name)\<close>.
\<close>

definition build :: "string \<Rightarrow> ('a, 'x) world \<Rightarrow> nat \<times> ('a, 'x) world" where
  "build initialState w =
     (let stateMachine = next_ref w;
          fields = [''currentState'' \<mapsto> Str initialState];
          methods = (\<lambda>name. if own (transitions w) name = None then fields name
                             else Some (Closure stateMachine name))
      in (stateMachine, w\<lparr>heap := (heap w)(stateMachine := methods), next_ref := Suc stateMachine\<rparr>))"

text \<open>An action that only records that it was called, and with what.\<close>

definition record_call ::
  "'a \<Rightarrow> 'v list \<Rightarrow> ('a, ('a \<times> 'v list) list) world \<Rightarrow> ('a, ('a \<times> 'v list) list) world outcome" where
  "record_call a args w = Returns (w\<lparr>ext := ext w @ [(a, args)]\<rparr>)"

subsection \<open>Reading the table and the outcome\<close>

text \<open>The entry of the table for a name and a state: the own property of the own row.\<close>

definition entry_at :: "'a table \<Rightarrow> string \<Rightarrow> string \<Rightarrow> 'a transition option" where
  "entry_at T n s =
     (case get_prop T n of
        Own r \<Rightarrow> (case get_prop r s of Own e \<Rightarrow> Some e | _ \<Rightarrow> None)
      | _ \<Rightarrow> None)"

fun world_of :: "'s outcome \<Rightarrow> 's option" where
  "world_of (Returns s) = Some s"
| "world_of (Throws e s) = Some s"
| "world_of Outside = None"

text \<open>What a caller can see after a call: the state of a runtime and the actions' trace.\<close>

definition observed :: "nat \<Rightarrow> ('a, 'x) world outcome \<Rightarrow> (jsval \<times> 'x) option" where
  "observed m out = (case world_of out of None \<Rightarrow> None | Some w \<Rightarrow> Some (current w m, ext w))"

text \<open>An action that reads \<^verbatim>\<open>currentState\<close> of a runtime and notes what it saw.\<close>

definition observe_state ::
  "nat \<Rightarrow> 'a \<Rightarrow> 'v list \<Rightarrow> ('a, jsval list) world \<Rightarrow> ('a, jsval list) world outcome" where
  "observe_state m a args w = Returns (w\<lparr>ext := ext w @ [current w m]\<rparr>)"

text \<open>
  An action that invokes the transition \<open>n'\<close> of the runtime \<open>m\<close>, passing on its
  arguments; \<open>run\<close> is what the actions reached through that call do.
\<close>

definition reenter ::
  "('a \<Rightarrow> 'v list \<Rightarrow> ('a, 'x) world \<Rightarrow> ('a, 'x) world outcome) \<Rightarrow> nat \<Rightarrow> string \<Rightarrow>
     'a \<Rightarrow> 'v list \<Rightarrow> ('a, 'x) world \<Rightarrow> ('a, 'x) world outcome" where
  "reenter run m n' a args w = newTransition run w m n' args"

subsection \<open>Single registrations in sequence\<close>

text \<open>
  \<^verbatim>\<open>setTransition\<close> called for each pair of a list in turn, with one end state and one
  callback. Nothing catches an exception, so the first call that throws ends the sequence.
\<close>

fun register_each ::
  "(string \<times> string) list \<Rightarrow> string \<Rightarrow> 'a \<Rightarrow> 'a table \<Rightarrow> 'a table outcome" where
  "register_each [] t a T = Returns T"
| "register_each ((n, s) # ps) t a T = and_then (setTransition n s t a T) (register_each ps t a)"

text \<open>
  The pairs a single registration accepts (it returns), and what it then does to the
  table: the row is made if need be, and the entry written into it.
\<close>

definition accepted :: "'a table \<Rightarrow> string \<times> string \<Rightarrow> bool" where
  "accepted T p \<longleftrightarrow>
     fst p \<noteq> ''length'' \<and> (own T (fst p) \<noteq> None \<or> fst p \<notin> set inherited_keys)
     \<and> snd p \<noteq> ''length'' \<and> snd p \<noteq> ''__proto__''"

definition write_row :: "'a transition \<Rightarrow> string \<times> string \<Rightarrow> 'a table \<Rightarrow> 'a table" where
  "write_row e p T =
     (case get_prop T (fst p) of
        Own r \<Rightarrow> T\<lparr>own := (own T)(fst p \<mapsto> define_prop (snd p) e r)\<rparr>
      | _ \<Rightarrow> T)"

definition put_entry :: "'a transition \<Rightarrow> string \<times> string \<Rightarrow> 'a table \<Rightarrow> 'a table" where
  "put_entry e p T = write_row e p (ensure_row (fst p) T)"

subsection \<open>Scenarios\<close>

text \<open>
  Scenario A of the specification: \<^verbatim>\<open>setTransition('go', 'A', 'B', action1)\<close> on a new
  factory, then \<^verbatim>\<open>build('A')\<close>; \<open>worldA2\<close> has a second runtime built from the same
  factory.
\<close>

definition tableA :: "nat table" where
  "tableA =
     \<lparr>own = [''go'' \<mapsto> \<lparr>own = [''A'' \<mapsto> \<lparr>endState = ''B'', action = 1\<rparr>], len = 0\<rparr>],
      len = 0\<rparr>"

definition worldA :: "(nat, (nat \<times> nat list) list) world" where
  "worldA = snd (build ''A'' ((factory [])\<lparr>transitions := tableA\<rparr>))"


text \<open>The same table, with the runtime built in the state \<^verbatim>\<open>'constructor'\<close>.\<close>

definition worldA_constructor :: "(nat, (nat \<times> nat list) list) world" where
  "worldA_constructor = snd (build ''constructor'' ((factory [])\<lparr>transitions := tableA\<rparr>))"

text \<open>The table after \<^verbatim>\<open>setTransition('go', 'A', 'C', action2)\<close> on \<open>tableA\<close>.\<close>

definition tableA_later :: "nat table" where
  "tableA_later =
     \<lparr>own = [''go'' \<mapsto> \<lparr>own = [''A'' \<mapsto> \<lparr>endState = ''C'', action = 2\<rparr>], len = 0\<rparr>],
      len = 0\<rparr>"

text \<open>
  \<^verbatim>\<open>go\<close> from \<^verbatim>\<open>A\<close> to \<^verbatim>\<open>B\<close> and \<^verbatim>\<open>next\<close> from \<^verbatim>\<open>B\<close> to \<^verbatim>\<open>C\<close>, the runtime built in
  \<^verbatim>\<open>A\<close>.
\<close>

definition tableAB :: "nat table" where
  "tableAB =
     \<lparr>own = [''go'' \<mapsto> \<lparr>own = [''A'' \<mapsto> \<lparr>endState = ''B'', action = 1\<rparr>], len = 0\<rparr>,
             ''next'' \<mapsto> \<lparr>own = [''B'' \<mapsto> \<lparr>endState = ''C'', action = 2\<rparr>], len = 0\<rparr>],
      len = 0\<rparr>"

definition worldAB :: "(nat, jsval list) world" where
  "worldAB = snd (build ''A'' ((factory [])\<lparr>transitions := tableAB\<rparr>))"

text \<open>A transition registered under the name \<^verbatim>\<open>currentState\<close>, then \<^verbatim>\<open>build('A')\<close>.\<close>

definition tableCS :: "nat table" where
  "tableCS =
     \<lparr>own = [''currentState'' \<mapsto>
               \<lparr>own = [''A'' \<mapsto> \<lparr>endState = ''B'', action = 1\<rparr>], len = 0\<rparr>],
      len = 0\<rparr>"

definition worldCS :: "(nat, (nat \<times> nat list) list) world" where
  "worldCS = snd (build ''A'' ((factory [])\<lparr>transitions := tableCS\<rparr>))"

text \<open>The table after \<^verbatim>\<open>setTransitions(['go'], [], 'B', action1)\<close> on a new factory.\<close>

definition table_go_only :: "nat table" where
  "table_go_only = \<lparr>own = [''go'' \<mapsto> empty_array], len = 0\<rparr>"

text \<open>
  \<^verbatim>\<open>setTransitions(['n1', 'n2'], ['s1', 's2'], 't', action1)\<close> on a new factory (P4 of the
  specification).
\<close>

definition table_P4 :: "nat table" where
  "table_P4 =
     \<lparr>own = [''n1'' \<mapsto> \<lparr>own = [''s1'' \<mapsto> \<lparr>endState = ''t'', action = 1\<rparr>,
                                  ''s2'' \<mapsto> \<lparr>endState = ''t'', action = 1\<rparr>], len = 0\<rparr>,
             ''n2'' \<mapsto> \<lparr>own = [''s1'' \<mapsto> \<lparr>endState = ''t'', action = 1\<rparr>,
                                  ''s2'' \<mapsto> \<lparr>endState = ''t'', action = 1\<rparr>], len = 0\<rparr>],
      len = 0\<rparr>"

section \<open>Properties\<close>

subsection \<open>Arrays and entries\<close>

lemma own_define_prop [simp]: "own (define_prop k v a) = (own a)(k \<mapsto> v)"
  by (simp add: define_prop_def)

lemma get_prop_define_same [simp]:
  "k \<noteq> ''length'' \<Longrightarrow> get_prop (define_prop k v a) k = Own v"
  by (simp add: get_prop_def define_prop_def)

lemma get_prop_Own_iff:
  "get_prop a k = Own v \<longleftrightarrow> k \<noteq> ''length'' \<and> own a k = Some v"
  by (auto simp: get_prop_def split: option.splits)

lemma get_prop_row_update [simp]:
  "get_prop T n = Own r \<Longrightarrow> get_prop (T\<lparr>own := (own T)(n \<mapsto> r')\<rparr>) n = Own r'"
  by (auto simp: get_prop_def split: if_splits)

lemma define_prop_twice [simp]:
  "define_prop k v (define_prop k u a) = define_prop k v a"
  by (cases "array_index k") (simp_all add: define_prop_def)

lemma map_upd_same_value_commute:
  "m(k \<mapsto> v, k' \<mapsto> v) = m(k' \<mapsto> v, k \<mapsto> v)"
  by (cases "k = k'") (simp_all add: fun_upd_twist)

lemma define_prop_commute:
  "define_prop k v (define_prop k' v a) = define_prop k' v (define_prop k v a)"
  by (cases "array_index k"; cases "array_index k'")
     (simp_all add: define_prop_def map_upd_same_value_commute [of _ k] max.left_commute)

lemma entry_atD:
  "entry_at T n s = Some e \<Longrightarrow> \<exists>r. get_prop T n = Own r \<and> get_prop r s = Own e"
  by (auto simp: entry_at_def split: slot.splits)

lemma entry_at_own_cong:
  assumes "own T' n = own T n"
  shows "entry_at T' n s = entry_at T n s"
  using assms by (simp add: entry_at_def get_prop_def)

lemma and_then_Returns [simp]: "and_then x Returns = x"
  by (cases x) simp_all

lemmas eval_defs =
  setTransition_def setTransitions_def ensure_row_def get_prop_def empty_array_def
  inherited_keys_def define_prop_def array_index_def digit_def entry_at_def
  newTransition_def build_def current_def set_current_def factory_def on_table_def
  record_call_def observe_state_def reenter_def closure_text_def observed_def

lemma closure_text_length: "length closure_text = 371"
  by (simp add: closure_text_def)

subsection \<open>Making a row\<close>

lemma ensure_row_length [simp]: "ensure_row ''length'' T = T"
  by (simp add: ensure_row_def get_prop_def)

lemma own_ensure_row:
  "own (ensure_row n T) k =
     (if k = n \<and> get_prop T n = Absent then Some empty_array else own T k)"
  by (auto simp: ensure_row_def get_prop_def split: option.splits)

lemma ensure_row_idem [simp]: "ensure_row n (ensure_row n T) = ensure_row n T"
  by (auto simp: ensure_row_def get_prop_def split: option.splits)

lemma ensure_row_not_Absent [simp]: "get_prop (ensure_row n T) n \<noteq> Absent"
  by (auto simp: ensure_row_def get_prop_def split: option.splits)

lemma ensure_row_fixed: "get_prop T n = Own r \<Longrightarrow> ensure_row n T = T"
  by (simp add: ensure_row_def)

lemma ensure_row_present: "get_prop T n \<noteq> Absent \<Longrightarrow> ensure_row n T = T"
proof (cases "n = ''length''")
  case True
  then show ?thesis by simp
next
  case False
  assume "get_prop T n \<noteq> Absent"
  then have "truthy (get_prop T n)"
    using False by (auto simp: get_prop_def split: option.splits if_splits)
  then show ?thesis by (simp add: ensure_row_def)
qed

lemma get_prop_ensure_other:
  "k \<noteq> n \<Longrightarrow> k \<noteq> ''length'' \<Longrightarrow> get_prop (ensure_row n T) k = get_prop T k"
  by (simp add: get_prop_def own_ensure_row)

lemma get_prop_ensure_Absent:
  "get_prop (ensure_row n T) k = Absent \<longleftrightarrow> k \<noteq> n \<and> get_prop T k = Absent"
  by (auto simp: get_prop_def own_ensure_row split: option.splits if_splits)

lemma ensure_row_commute:
  "ensure_row n (ensure_row n' T) = ensure_row n' (ensure_row n T)"
proof (cases "n = n' \<or> n = ''length'' \<or> n' = ''length''")
  case True
  then show ?thesis by auto
next
  case False
  then have *: "n \<noteq> n'" "n \<noteq> ''length''" "n' \<noteq> ''length''" by auto
  have a: "get_prop (ensure_row n' T) n = get_prop T n"
    using * by (simp add: get_prop_ensure_other)
  have b: "get_prop (ensure_row n T) n' = get_prop T n'"
    using * by (simp add: get_prop_ensure_other)
  show ?thesis
    unfolding ensure_row_def [of n "ensure_row n' T"] ensure_row_def [of n' "ensure_row n T"] a b
    using *
    by (cases "array_index n"; cases "array_index n'")
       (auto simp: ensure_row_def define_prop_def fun_upd_twist max.left_commute)
qed

subsection \<open>One registration\<close>

lemma setTransition_unfold:
  "setTransition n s t a T =
     set_states n [s] \<lparr>endState = t, action = a\<rparr> (ensure_row n T)"
  by (cases "set_states n [s] \<lparr>endState = t, action = a\<rparr> (ensure_row n T)")
     (simp_all add: setTransition_def)

lemma setTransition_ensure:
  "setTransition n s t a (ensure_row n T) = setTransition n s t a T"
  by (simp add: setTransition_unfold)

lemma setTransition_entry:
  assumes "setTransition n s t a T = Returns T'"
  shows "entry_at T' n s = Some \<lparr>endState = t, action = a\<rparr>"
  using assms
  by (auto simp: setTransition_unfold entry_at_def get_prop_def
           split: slot.splits if_splits option.splits)

lemma setTransition_Returns_iff:
  "setTransition n s t a T = Returns T' \<longleftrightarrow>
     accepted T (n, s) \<and> T' = put_entry \<lparr>endState = t, action = a\<rparr> (n, s) T"
  by (auto simp: setTransition_unfold accepted_def put_entry_def write_row_def own_ensure_row
                 get_prop_def ensure_row_def
           split: slot.splits option.splits if_splits)

lemma last_write_eq:
  "and_then (setTransition n s t1 a1 T) (setTransition n s t2 a2) = setTransition n s t2 a2 T"
proof (cases "get_prop (ensure_row n T) n")
  case (Own r)
  then have n: "n \<noteq> ''length''" by (simp add: get_prop_Own_iff)
  show ?thesis using Own n
    by (simp add: setTransition_unfold ensure_row_def get_prop_def)
next
  case (Number k)
  then show ?thesis by (simp add: setTransition_unfold ensure_row_def)
next
  case Builtin
  then show ?thesis by (simp add: setTransition_unfold ensure_row_def)
next
  case Absent
  then show ?thesis by (simp add: setTransition_unfold ensure_row_def)
qed

lemma on_table_heap:
  "on_table f w = Returns w' \<Longrightarrow> heap w' = heap w \<and> ext w' = ext w \<and> next_ref w' = next_ref w"
  by (auto simp: on_table_def split: outcome.splits)

lemma on_table_transitions:
  "on_table f w = Returns w' \<Longrightarrow> f (transitions w) = Returns (transitions w')"
  by (auto simp: on_table_def split: outcome.splits)

subsection \<open>Registrations in sequence\<close>

lemma register_each_append:
  "register_each (ps @ qs) t a T = and_then (register_each ps t a T) (register_each qs t a)"
proof (induction ps arbitrary: T)
  case Nil
  show ?case by simp
next
  case (Cons p ps)
  obtain n s where p: "p = (n, s)" by (cases p)
  show ?case
    by (cases "setTransition n s t a T") (simp_all add: p Cons.IH)
qed

lemma register_row:
  "ensure_row n T = T \<Longrightarrow> get_prop T n \<noteq> Absent \<Longrightarrow>
     register_each (map (Pair n) ss) t a T = set_states n ss \<lparr>endState = t, action = a\<rparr> T"
proof (induction ss arbitrary: T)
  case Nil
  show ?case by simp
next
  case (Cons s ss)
  show ?case
  proof (cases "get_prop T n")
    case (Own r)
    let ?T = "T\<lparr>own := (own T)(n \<mapsto> define_prop s \<lparr>endState = t, action = a\<rparr> r)\<rparr>"
    have g: "get_prop ?T n = Own (define_prop s \<lparr>endState = t, action = a\<rparr> r)"
      using Own by simp
    have "register_each (map (Pair n) ss) t a ?T
            = set_states n ss \<lparr>endState = t, action = a\<rparr> ?T"
      by (rule Cons.IH) (simp_all add: g ensure_row_fixed [OF g])
    then show ?thesis
      using Own Cons.prems by (simp add: setTransition_unfold)
  next
    case (Number k)
    then show ?thesis using Cons.prems by (simp add: setTransition_unfold)
  next
    case Builtin
    then show ?thesis using Cons.prems by (simp add: setTransition_unfold)
  next
    case Absent
    then show ?thesis using Cons.prems by simp
  qed
qed

lemma register_row_ensure:
  assumes "ss \<noteq> []"
  shows "register_each (map (Pair n) ss) t a T
           = set_states n ss \<lparr>endState = t, action = a\<rparr> (ensure_row n T)"
proof -
  obtain s ss' where ss: "ss = s # ss'" using assms by (cases ss) auto
  have "register_each (map (Pair n) ss) t a T
          = register_each (map (Pair n) ss) t a (ensure_row n T)"
    by (simp add: ss setTransition_ensure)
  also have "\<dots> = set_states n ss \<lparr>endState = t, action = a\<rparr> (ensure_row n T)"
    by (rule register_row) simp_all
  finally show ?thesis .
qed

lemma bulk_is_cross_product:
  assumes "ss \<noteq> []"
  shows "addPendingTransitions ns ss t a T = register_each (List.product ns ss) t a T"
proof (induction ns arbitrary: T)
  case Nil
  show ?case by simp
next
  case (Cons n ns)
  have "addPendingTransitions ns ss t a = register_each (List.product ns ss) t a"
    by (rule ext) (rule Cons.IH)
  then show ?case
    by (simp add: register_each_append register_row_ensure [OF assms])
qed

subsection \<open>Registrations in any order\<close>

lemma own_put_entry_None:
  "own (put_entry e q T) k = None \<longleftrightarrow> own T k = None \<and> \<not> (k = fst q \<and> get_prop T k = Absent)"
  by (auto simp: put_entry_def write_row_def own_ensure_row get_prop_def
           split: slot.splits option.splits if_splits)

lemma accepted_put_entry [simp]: "accepted (put_entry e q T) p \<longleftrightarrow> accepted T p"
  by (auto simp: accepted_def own_put_entry_None get_prop_def split: option.splits if_splits)

lemma register_each_Returns_iff:
  "register_each ps t a T = Returns T' \<longleftrightarrow>
     (\<forall>p \<in> set ps. accepted T p) \<and> T' = fold (put_entry \<lparr>endState = t, action = a\<rparr>) ps T"
proof (induction ps arbitrary: T)
  case Nil
  show ?case by auto
next
  case (Cons p ps)
  obtain n s where p: "p = (n, s)" by (cases p)
  show ?case
  proof (cases "setTransition n s t a T")
    case (Returns T1)
    then have 1: "accepted T (n, s)" "T1 = put_entry \<lparr>endState = t, action = a\<rparr> (n, s) T"
      by (simp_all add: setTransition_Returns_iff)
    show ?thesis using Returns 1 by (simp add: p Cons.IH)
  next
    case (Throws x T1)
    then have "\<not> accepted T (n, s)"
      using setTransition_Returns_iff [of n s t a T] by auto
    then show ?thesis using Throws by (simp add: p)
  next
    case Outside
    then have "\<not> accepted T (n, s)"
      using setTransition_Returns_iff [of n s t a T] by auto
    then show ?thesis using Outside by (simp add: p)
  qed
qed

lemma get_prop_write_other:
  "k \<noteq> fst p \<Longrightarrow> get_prop (write_row e p T) k = get_prop T k"
  by (auto simp: write_row_def get_prop_def split: slot.splits option.splits if_splits)

lemma write_row_ensure_commute:
  assumes "fst p \<noteq> n"
  shows "write_row e p (ensure_row n T) = ensure_row n (write_row e p T)"
proof (cases "n = ''length''")
  case True
  then show ?thesis by simp
next
  case False
  show ?thesis
  proof (cases "get_prop T (fst p)")
    case (Own r)
    then have l: "fst p \<noteq> ''length''" by (simp add: get_prop_Own_iff)
    have g: "get_prop (ensure_row n T) (fst p) = Own r"
      using assms l Own by (simp add: get_prop_ensure_other)
    have t: "get_prop (T\<lparr>own := (own T)(fst p \<mapsto> define_prop (snd p) e r)\<rparr>) n = get_prop T n"
      using assms by (simp add: get_prop_def)
    show ?thesis
      using assms Own g t False
      by (cases "array_index n")
         (auto simp: write_row_def ensure_row_def define_prop_def fun_upd_twist)
  next
    case (Number k)
    then have "fst p = ''length''" by (auto simp: get_prop_def split: if_splits option.splits)
    then show ?thesis by (simp add: write_row_def get_prop_def)
  next
    case Builtin
    then have l: "fst p \<noteq> ''length''" by (auto simp: get_prop_def split: if_splits)
    have g: "get_prop (ensure_row n T) (fst p) = Builtin"
      using assms l Builtin by (simp add: get_prop_ensure_other)
    show ?thesis using Builtin g by (simp add: write_row_def)
  next
    case Absent
    then have l: "fst p \<noteq> ''length''" by (auto simp: get_prop_def split: if_splits)
    have g: "get_prop (ensure_row n T) (fst p) = Absent"
      using assms l Absent by (simp add: get_prop_ensure_other)
    show ?thesis using Absent g by (simp add: write_row_def)
  qed
qed

lemma write_row_commute:
  assumes "fst p \<noteq> fst q"
  shows "write_row e p (write_row e q T) = write_row e q (write_row e p T)"
proof -
  have a: "get_prop (write_row e q T) (fst p) = get_prop T (fst p)"
    using assms by (simp add: get_prop_write_other)
  have b: "get_prop (write_row e p T) (fst q) = get_prop T (fst q)"
    using assms by (simp add: get_prop_write_other)
  show ?thesis
    unfolding write_row_def [of e p "write_row e q T"] write_row_def [of e q "write_row e p T"] a b
    using assms
    by (auto simp: write_row_def fun_upd_twist split: slot.splits)
qed

lemma put_entry_same_name:
  "put_entry e (n, s) (put_entry e (n, s') T) = put_entry e (n, s') (put_entry e (n, s) T)"
proof (cases "get_prop (ensure_row n T) n")
  case (Own r)
  then have n: "n \<noteq> ''length''" by (simp add: get_prop_Own_iff)
  show ?thesis using Own n
    by (simp add: put_entry_def write_row_def ensure_row_fixed get_prop_def
                  define_prop_commute [of s _ s'] ensure_row_def)
next
  case (Number k)
  then show ?thesis by (simp add: put_entry_def write_row_def)
next
  case Builtin
  then show ?thesis by (simp add: put_entry_def write_row_def)
next
  case Absent
  then show ?thesis by simp
qed

lemma put_entry_other_name:
  assumes "fst p \<noteq> fst q"
  shows "put_entry e p (put_entry e q T) = put_entry e q (put_entry e p T)"
proof -
  have "put_entry e p (put_entry e q T)
          = write_row e p (write_row e q (ensure_row (fst p) (ensure_row (fst q) T)))"
    using assms by (simp add: put_entry_def write_row_ensure_commute [symmetric])
  also have "\<dots> = write_row e q (write_row e p (ensure_row (fst q) (ensure_row (fst p) T)))"
    using assms by (simp add: write_row_commute ensure_row_commute [of "fst p"])
  also have "\<dots> = put_entry e q (put_entry e p T)"
    using assms by (simp add: put_entry_def write_row_ensure_commute [symmetric])
  finally show ?thesis .
qed

lemma put_entry_commute:
  "put_entry e p (put_entry e q T) = put_entry e q (put_entry e p T)"
proof (cases "fst p = fst q")
  case True
  then show ?thesis
    using put_entry_same_name [of e "fst p" "snd p" "snd q" T]
    by (cases p; cases q) simp
next
  case False
  then show ?thesis by (rule put_entry_other_name)
qed

lemma put_entry_idem:
  "put_entry e p (put_entry e p T) = put_entry e p T"
proof (cases "get_prop (ensure_row (fst p) T) (fst p)")
  case (Own r)
  then have n: "fst p \<noteq> ''length''" by (simp add: get_prop_Own_iff)
  show ?thesis using Own n
    by (simp add: put_entry_def write_row_def get_prop_def ensure_row_def)
next
  case (Number k)
  then show ?thesis by (simp add: put_entry_def write_row_def)
next
  case Builtin
  then show ?thesis by (simp add: put_entry_def write_row_def)
next
  case Absent
  then show ?thesis by simp
qed

lemma put_entry_comp_fun_idem: "comp_fun_idem_on UNIV (put_entry e)"
  by (intro comp_fun_idem_on.intro comp_fun_commute_on.intro comp_fun_idem_on_axioms.intro)
     (simp_all add: fun_eq_iff put_entry_commute put_entry_idem)

lemma fold_put_entry_set:
  assumes "set ps = set qs"
  shows "fold (put_entry e) ps T = fold (put_entry e) qs T"
proof -
  have "fold (put_entry e) ps T = Finite_Set.fold (put_entry e) T (set ps)"
    by (simp add: comp_fun_idem_on.fold_set_fold [OF put_entry_comp_fun_idem])
  also have "\<dots> = fold (put_entry e) qs T"
    by (simp add: assms comp_fun_idem_on.fold_set_fold [OF put_entry_comp_fun_idem])
  finally show ?thesis .
qed

subsection \<open>Registration without states\<close>

lemma addPending_no_states:
  "addPendingTransitions ns [] t a T = Returns (fold ensure_row ns T)"
  by (induction ns arbitrary: T) simp_all

lemma own_fold_ensure_row:
  "own (fold ensure_row ns T) k =
     (if k \<in> set ns \<and> get_prop T k = Absent then Some empty_array else own T k)"
proof (induction ns arbitrary: T)
  case Nil
  show ?case by simp
next
  case (Cons n ns)
  show ?case
    by (auto simp: Cons.IH get_prop_ensure_Absent own_ensure_row)
qed

lemma entry_at_fold_ensure_row:
  "entry_at (fold ensure_row ns T) n s = entry_at T n s"
proof (cases "n \<in> set ns \<and> get_prop T n = Absent")
  case True
  then have "own (fold ensure_row ns T) n = Some empty_array"
    by (simp add: own_fold_ensure_row)
  moreover have "n \<noteq> ''length''" using True by (auto simp: get_prop_def)
  ultimately have "entry_at (fold ensure_row ns T) n s = None"
    by (simp add: entry_at_def get_prop_def empty_array_def)
  then show ?thesis using True by (simp add: entry_at_def)
next
  case False
  then have "own (fold ensure_row ns T) n = own T n"
    by (auto simp: own_fold_ensure_row)
  then show ?thesis by (rule entry_at_own_cong)
qed

lemma fold_ensure_row_fixed:
  "fold ensure_row ns T = T \<longleftrightarrow> (\<forall>k \<in> set ns. get_prop T k \<noteq> Absent)"
proof
  assume eq: "fold ensure_row ns T = T"
  show "\<forall>k \<in> set ns. get_prop T k \<noteq> Absent"
  proof
    fix k assume k: "k \<in> set ns"
    show "get_prop T k \<noteq> Absent"
    proof
      assume a: "get_prop T k = Absent"
      then have "own (fold ensure_row ns T) k = Some empty_array"
        using k by (simp add: own_fold_ensure_row)
      moreover have "own T k = None"
        using a by (auto simp: get_prop_def split: if_splits option.splits)
      ultimately show False using eq by simp
    qed
  qed
next
  assume "\<forall>k \<in> set ns. get_prop T k \<noteq> Absent"
  then show "fold ensure_row ns T = T"
  proof (induction ns)
    case Nil
    show ?case by simp
  next
    case (Cons n ns)
    have "ensure_row n T = T"
      using Cons.prems by (simp add: ensure_row_present)
    then show ?case using Cons by simp
  qed
qed

lemma product_no_states [simp]: "List.product ns [] = []"
  by (induction ns) simp_all

subsection \<open>Build\<close>

text \<open>
  The properties of the object \<^verbatim>\<open>build\<close> returns: the closure of each name that has a row,
  and \<^verbatim>\<open>currentState\<close> with the initial state unless that name has a row.
\<close>

lemma build_callables:
  assumes "build initialState w = (m, w')"
  shows "heap w' m n =
           (if own (transitions w) n \<noteq> None then Some (Closure m n)
            else if n = ''currentState'' then Some (Str initialState) else None)"
  using assms by (auto simp: build_def Let_def)

lemma build_callables_witness:
  "build ''A'' ((factory ([] :: (nat \<times> nat list) list))\<lparr>transitions := tableA\<rparr>) = (0, worldA)
   \<and> heap worldA 0 ''go'' = Some (Closure 0 ''go'')
   \<and> heap worldA 0 ''currentState'' = Some (Str ''A'')
   \<and> heap worldA 0 ''stop'' = None"
proof -
  let ?w = "(factory ([] :: (nat \<times> nat list) list))\<lparr>transitions := tableA\<rparr>"
  have b: "build ''A'' ?w = (0, worldA)"
    by (simp add: worldA_def eval_defs)
  have o: "own (transitions ?w) ''go'' \<noteq> None" "own (transitions ?w) ''currentState'' = None"
    "own (transitions ?w) ''stop'' = None"
    by (simp_all add: tableA_def)
  show ?thesis
    using build_callables [OF b, of "''go''"] build_callables [OF b, of "''currentState''"]
      build_callables [OF b, of "''stop''"] b o
    by simp
qed

lemma build_frame:
  assumes "build initialState w = (m, w')"
  shows "m = next_ref w \<and> transitions w' = transitions w \<and> ext w' = ext w
         \<and> (\<forall>r. r \<noteq> m \<longrightarrow> heap w' r = heap w r)"
  using assms by (auto simp: build_def Let_def)

text \<open>
  Rows stay: a registration removes no row, whether it returns or throws, and none is ever
  made under the name \<^verbatim>\<open>length\<close>. So a name that has a callable on some runtime reads as a
  row in every later table.
\<close>

lemma set_states_keeps_rows:
  assumes "world_of (set_states n ss e T) = Some T'"
  shows "(own T k \<noteq> None \<longrightarrow> own T' k \<noteq> None)
         \<and> (own T ''length'' = None \<longrightarrow> own T' ''length'' = None)"
  using assms
proof (induction ss arbitrary: T)
  case Nil
  then show ?case by simp
next
  case (Cons s ss)
  show ?case
  proof (cases "get_prop T n")
    case (Own r)
    then have n: "n \<noteq> ''length''" by (simp add: get_prop_Own_iff)
    show ?thesis
    proof (cases "s = ''length'' \<or> s = ''__proto__''")
      case True
      then show ?thesis using Cons.prems Own by auto
    next
      case False
      let ?T = "T\<lparr>own := (own T)(n \<mapsto> define_prop s e r)\<rparr>"
      have "world_of (set_states n ss e ?T) = Some T'"
        using Cons.prems Own False by simp
      from Cons.IH [OF this] show ?thesis using n by auto
    qed
  next
    case (Number x)
    then show ?thesis using Cons.prems by (auto split: if_splits)
  next
    case Builtin
    then show ?thesis using Cons.prems by simp
  next
    case Absent
    then show ?thesis using Cons.prems by simp
  qed
qed

lemma ensure_row_keeps_rows:
  "(own T k \<noteq> None \<longrightarrow> own (ensure_row n T) k \<noteq> None)
   \<and> (own T ''length'' = None \<longrightarrow> own (ensure_row n T) ''length'' = None)"
  by (auto simp: own_ensure_row get_prop_def)

lemma addPendingTransitions_keeps_rows:
  assumes "world_of (addPendingTransitions ns ss t a T) = Some T'"
  shows "(own T k \<noteq> None \<longrightarrow> own T' k \<noteq> None)
         \<and> (own T ''length'' = None \<longrightarrow> own T' ''length'' = None)"
  using assms
proof (induction ns arbitrary: T)
  case Nil
  then show ?case by simp
next
  case (Cons n ns)
  let ?e = "\<lparr>endState = t, action = a\<rparr>"
  show ?case
  proof (cases "set_states n ss ?e (ensure_row n T)")
    case (Returns T1)
    then have 1: "world_of (set_states n ss ?e (ensure_row n T)) = Some T1" by simp
    have 2: "world_of (addPendingTransitions ns ss t a T1) = Some T'"
      using Cons.prems Returns by simp
    show ?thesis
      using set_states_keeps_rows [OF 1, of k] Cons.IH [OF 2] ensure_row_keeps_rows [of T k n]
      by auto
  next
    case (Throws x T1)
    then have 1: "world_of (set_states n ss ?e (ensure_row n T)) = Some T1" by simp
    have "T' = T1" using Cons.prems Throws by simp
    then show ?thesis
      using set_states_keeps_rows [OF 1, of k] ensure_row_keeps_rows [of T k n] by auto
  next
    case Outside
    then show ?thesis using Cons.prems by simp
  qed
qed

lemma callable_has_row:
  assumes "build initialState w = (m, w')"
      and "heap w' m n = Some (Closure m n)"
      and "own (transitions w) ''length'' = None"
  shows "\<exists>r. get_prop (transitions w') n = Own r"
proof -
  have t: "transitions w' = transitions w"
    using assms(1) by (auto simp: build_def Let_def)
  have "own (transitions w) n \<noteq> None"
    using assms(1,2) by (auto simp: build_def Let_def split: if_splits)
  moreover from this have "n \<noteq> ''length''" using assms(3) by auto
  ultimately show ?thesis by (auto simp: t get_prop_def)
qed

subsection \<open>Dispatch\<close>

lemma newTransition_entry:
  assumes "entry_at (transitions w) n s = Some \<lparr>endState = t, action = a\<rparr>"
      and "current w m = Str s"
  shows "newTransition run w m n args = run a args (set_current w m (Str t))"
  using assms by (auto simp: newTransition_def dest!: entry_atD)

text \<open>
  When the name reads \<^verbatim>\<open>undefined\<close> in the table, or the state reads \<^verbatim>\<open>undefined\<close> in the row
  of the name, the call returns with the world as it was and no action is called.
  Scenario A: after \<^verbatim>\<open>go()\<close> the runtime is in \<^verbatim>\<open>B\<close>, and a second \<^verbatim>\<open>go()\<close> does nothing.
\<close>

lemma missing_entry_noop:
  assumes "get_prop (transitions w) n = Absent
           \<or> (\<exists>r. get_prop (transitions w) n = Own r
                  \<and> get_prop r (to_key (current w m)) = Absent)"
  shows "newTransition run w m n args = Returns w"
  using assms by (auto simp: newTransition_def)

lemma missing_entry_noop_witness:
  "get_prop (transitions (set_current worldA 0 (Str ''B''))) ''go''
     = Own \<lparr>own = [''A'' \<mapsto> \<lparr>endState = ''B'', action = 1\<rparr>], len = 0\<rparr>
   \<and> get_prop \<lparr>own = [''A'' \<mapsto> \<lparr>endState = ''B'', action = 1 :: nat\<rparr>], len = 0\<rparr>
         (to_key (current (set_current worldA 0 (Str ''B'')) 0)) = Absent
   \<and> newTransition record_call (set_current worldA 0 (Str ''B'')) 0 ''go'' ([] :: nat list)
        = Returns (set_current worldA 0 (Str ''B''))"
proof -
  let ?w = "set_current worldA 0 (Str ''B'')"
  let ?r = "\<lparr>own = [''A'' \<mapsto> \<lparr>endState = ''B'', action = 1 :: nat\<rparr>], len = 0\<rparr>"
  have g: "get_prop (transitions ?w) ''go'' = Own ?r"
    by (simp add: worldA_def tableA_def eval_defs)
  have a: "get_prop ?r (to_key (current ?w 0)) = Absent"
    by (simp add: eval_defs)
  have "get_prop (transitions ?w) ''go'' = Absent
        \<or> (\<exists>r. get_prop (transitions ?w) ''go'' = Own r
               \<and> get_prop r (to_key (current ?w 0)) = Absent)"
    using g a by simp
  from missing_entry_noop [OF this, of record_call "[] :: nat list"] g a
  show ?thesis by simp
qed

section \<open>The claims\<close>

subsection \<open>Dispatch of a registered transition\<close>

text \<open>
  C1. For every entry \<open>(n, s) \<rightarrow> (t, a)\<close> of the table: when \<^verbatim>\<open>currentState\<close> of a runtime
  is \<open>s\<close>, calling the closure made for \<open>n\<close> with the arguments \<open>args\<close> sets
  \<^verbatim>\<open>currentState\<close> of that runtime to \<open>t\<close>, changing nothing else, and then calls the
  action \<open>a\<close> once, with \<open>args\<close> as they are. This holds whatever calling an action does
  (\<open>run\<close>); with actions that only record their calls, exactly the call \<open>(a, args)\<close> is
  recorded and the state ends as \<open>t\<close>.
\<close>

theorem transition_dispatch:
  assumes "entry_at (transitions w) n s = Some \<lparr>endState = t, action = a\<rparr>"
      and "current w m = Str s"
  shows "\<exists>w'. newTransition run w m n args = run a args w'
              \<and> current w' m = Str t
              \<and> heap w' m = (heap w m)(''currentState'' \<mapsto> Str t)
              \<and> (\<forall>r. r \<noteq> m \<longrightarrow> heap w' r = heap w r)
              \<and> transitions w' = transitions w \<and> ext w' = ext w
              \<and> next_ref w' = next_ref w"
proof -
  have "newTransition run w m n args = run a args (set_current w m (Str t))"
    using assms by (rule newTransition_entry)
  moreover have "current (set_current w m (Str t)) m = Str t"
    by (simp add: current_def set_current_def)
  ultimately show ?thesis
    by (intro exI [of _ "set_current w m (Str t)"]) (simp add: set_current_def)
qed

theorem transition_dispatch_witness:
  "setTransition ''go'' ''A'' ''B'' 1 empty_array = Returns (transitions worldA)
   \<and> entry_at (transitions worldA) ''go'' ''A'' = Some \<lparr>endState = ''B'', action = 1\<rparr>
   \<and> current worldA 0 = Str ''A''
   \<and> heap worldA 0 ''go'' = Some (Closure 0 ''go'')
   \<and> observed 0 (newTransition record_call worldA 0 ''go'' [7, 8 :: nat])
       = Some (Str ''B'', [(1, [7, 8])])"
proof -
  have r: "setTransition ''go'' ''A'' ''B'' 1 empty_array = Returns (transitions worldA)"
    by (simp add: worldA_def tableA_def eval_defs)
  have e: "entry_at (transitions worldA) ''go'' ''A'' = Some \<lparr>endState = ''B'', action = 1\<rparr>"
    by (simp add: worldA_def tableA_def eval_defs)
  have c: "current worldA 0 = Str ''A''"
    by (simp add: worldA_def tableA_def eval_defs)
  have h: "heap worldA 0 ''go'' = Some (Closure 0 ''go'')"
    by (simp add: worldA_def tableA_def eval_defs)
  have x: "ext worldA = []"
    by (simp add: worldA_def eval_defs)
  obtain w' where 1: "newTransition record_call worldA 0 ''go'' [7, 8 :: nat]
                        = record_call 1 [7, 8] w'"
    and 2: "current w' 0 = Str ''B''" and 3: "ext w' = ext worldA"
    using transition_dispatch [OF e c, of record_call "[7, 8 :: nat]"] by blast
  have "observed 0 (newTransition record_call worldA 0 ''go'' [7, 8 :: nat])
          = Some (Str ''B'', [(1, [7, 8])])"
    using 2 3 x unfolding 1 by (simp add: observed_def record_call_def current_def)
  then show ?thesis using r e c h by simp
qed

text \<open>
  C2. The state is assigned before the action is called: an action that reads
  \<^verbatim>\<open>currentState\<close> of the runtime sees \<open>t\<close>, and an action that invokes a transition \<open>n'\<close>
  of the same runtime has it dispatched from \<open>t\<close>.
\<close>

theorem state_assigned_before_action:
  assumes "entry_at (transitions w) n s = Some \<lparr>endState = t, action = a\<rparr>"
      and "current w m = Str s"
  shows "newTransition (observe_state m) w m n args
           = Returns ((set_current w m (Str t))\<lparr>ext := ext w @ [Str t]\<rparr>)
         \<and> newTransition (reenter run m n') w m n args
           = newTransition run (set_current w m (Str t)) m n' args"
  using assms
  by (auto simp: newTransition_def observe_state_def reenter_def current_def set_current_def
           dest!: entry_atD)

theorem state_assigned_before_action_witness:
  "entry_at (transitions worldAB) ''go'' ''A'' = Some \<lparr>endState = ''B'', action = 1\<rparr>
   \<and> current worldAB 0 = Str ''A''
   \<and> newTransition (observe_state 0) worldAB 0 ''go'' [5 :: nat]
       = Returns ((set_current worldAB 0 (Str ''B''))\<lparr>ext := [Str ''B'']\<rparr>)
   \<and> newTransition (reenter (observe_state 0) 0 ''next'') worldAB 0 ''go'' [5 :: nat]
       = Returns ((set_current worldAB 0 (Str ''C''))\<lparr>ext := [Str ''C'']\<rparr>)"
proof -
  have e: "entry_at (transitions worldAB) ''go'' ''A'' = Some \<lparr>endState = ''B'', action = 1\<rparr>"
    by (simp add: worldAB_def tableAB_def eval_defs)
  have c: "current worldAB 0 = Str ''A''"
    by (simp add: worldAB_def tableAB_def eval_defs)
  have x: "ext worldAB = []"
    by (simp add: worldAB_def eval_defs)
  have n: "newTransition (observe_state 0) (set_current worldAB 0 (Str ''B'')) 0 ''next'' [5 :: nat]
             = Returns ((set_current worldAB 0 (Str ''C''))\<lparr>ext := [Str ''C'']\<rparr>)"
    by (simp add: worldAB_def tableAB_def eval_defs)
  show ?thesis
    using state_assigned_before_action
            [OF e c, of "[5 :: nat]" "observe_state 0" "''next''"] e c x n
    by simp
qed

subsection \<open>Dispatch without an entry\<close>

text \<open>
  C3. With no entry for \<open>(n, s)\<close>, the call should change nothing and throw nothing. It
  does so when \<^verbatim>\<open>transitions[n][s]\<close> reads \<^verbatim>\<open>undefined\<close> (\<open>missing_entry_noop\<close>). The row
  is an array, though, and the test is on the truth of \<^verbatim>\<open>transitions[n][s]\<close>: for a state
  named as a property that arrays inherit, such as \<^verbatim>\<open>constructor\<close>, the test succeeds with
  no entry there. In Scenario A with the runtime built in the state \<^verbatim>\<open>constructor\<close>,
  \<^verbatim>\<open>go()\<close> sets \<^verbatim>\<open>currentState\<close> to \<^verbatim>\<open>undefined\<close> and throws a TypeError.
\<close>

theorem inherited_state_is_dispatched:
  "entry_at (transitions worldA_constructor) ''go'' ''constructor'' = None
   \<and> current worldA_constructor 0 = Str ''constructor''
   \<and> heap worldA_constructor 0 ''go'' = Some (Closure 0 ''go'')
   \<and> newTransition record_call worldA_constructor 0 ''go'' ([] :: nat list)
       = Throws TypeError (set_current worldA_constructor 0 Undefined)"
  by (simp add: worldA_constructor_def tableA_def eval_defs)

subsection \<open>Registering the same pair twice\<close>

text \<open>
  C4. Registering \<open>(n, s) \<rightarrow> (t1, a1)\<close> and then \<open>(n, s) \<rightarrow> (t2, a2)\<close> leaves the table that
  registering \<open>(n, s) \<rightarrow> (t2, a2)\<close> alone leaves, with the same outcome: the second
  registration raises nothing of its own. When it returns, the entry for \<open>(n, s)\<close> is
  \<open>(t2, a2)\<close>; \<open>entry_at\<close> being a function, the pair has no other entry, so \<open>a1\<close> is not
  reached through it.
\<close>

theorem last_write_wins:
  "and_then (setTransition n s t1 a1 T) (setTransition n s t2 a2) = setTransition n s t2 a2 T
   \<and> (\<forall>T'. setTransition n s t2 a2 T = Returns T' \<longrightarrow>
         entry_at T' n s = Some \<lparr>endState = t2, action = a2\<rparr>)"
  by (simp add: last_write_eq setTransition_entry)

theorem last_write_wins_witness:
  "and_then (setTransition ''go'' ''A'' ''B'' 1 empty_array) (setTransition ''go'' ''A'' ''C'' 2)
     = Returns tableA_later
   \<and> setTransition ''go'' ''A'' ''C'' 2 empty_array = Returns tableA_later
   \<and> entry_at tableA_later ''go'' ''A'' = Some \<lparr>endState = ''C'', action = 2\<rparr>"
proof -
  have r: "setTransition ''go'' ''A'' ''C'' 2 empty_array = Returns tableA_later"
    by (simp add: tableA_later_def eval_defs)
  show ?thesis
    using last_write_wins
            [where n = "''go''" and s = "''A''" and ?t1.0 = "''B''" and ?a1.0 = "1 :: nat"
               and T = empty_array and ?t2.0 = "''C''" and ?a2.0 = 2] r
    by simp
qed

subsection \<open>Bulk registration\<close>

text \<open>
  C5, as stated, fails when \<^verbatim>\<open>fromStates\<close> is empty and a name is new: the bulk call
  makes the (empty) row of that name, and no single registration is made for an empty
  cross product.
\<close>

theorem bulk_registration_counterexample:
  "setTransitions [''go''] [] ''B'' (1 :: nat) empty_array
     \<noteq> register_each (List.product [''go''] []) ''B'' 1 empty_array"
  by (simp add: eval_defs)

text \<open>
  C5, amended. \<^verbatim>\<open>setTransition(n, s, t, a)\<close> is \<^verbatim>\<open>setTransitions([n], [s], t, a)\<close>. The bulk
  call has the outcome of the single registrations over the cross product, made in the
  order of the nested loop (names outside, states inside) and ending at a call that throws,
  exactly when \<^verbatim>\<open>fromStates\<close> is not empty or no name of \<^verbatim>\<open>names\<close> is new to the table. In
  that case, when the bulk call returns, the single registrations over the cross product
  made in any order, with or without repetitions, return the same table.
\<close>

theorem bulk_registration:
  "setTransition n s t a T = setTransitions [n] [s] t a T
   \<and> (setTransitions ns ss t a T = register_each (List.product ns ss) t a T
        \<longleftrightarrow> ss \<noteq> [] \<or> (\<forall>k \<in> set ns. get_prop T k \<noteq> Absent))
   \<and> ((ss \<noteq> [] \<or> (\<forall>k \<in> set ns. get_prop T k \<noteq> Absent))
        \<and> set ps = set ns \<times> set ss \<and> setTransitions ns ss t a T = Returns T'
        \<longrightarrow> register_each ps t a T = Returns T')"
proof -
  let ?ok = "ss \<noteq> [] \<or> (\<forall>k \<in> set ns. get_prop T k \<noteq> Absent)"
  have 1: "setTransition n s t a T = setTransitions [n] [s] t a T"
    by (simp add: setTransition_def setTransitions_def)
  have 2: "setTransitions ns ss t a T = register_each (List.product ns ss) t a T \<longleftrightarrow> ?ok"
  proof (cases "ss = []")
    case True
    then show ?thesis
      by (simp add: setTransitions_def addPending_no_states fold_ensure_row_fixed)
  next
    case False
    then show ?thesis by (simp add: setTransitions_def bulk_is_cross_product)
  qed
  have 3: "register_each ps t a T = Returns T'"
    if ok: ?ok and ps: "set ps = set ns \<times> set ss"
      and ret: "setTransitions ns ss t a T = Returns T'"
  proof -
    have "register_each (List.product ns ss) t a T = Returns T'"
      using 2 ok ret by simp
    then have a: "\<forall>p \<in> set (List.product ns ss). accepted T p"
      and f: "T' = fold (put_entry \<lparr>endState = t, action = a\<rparr>) (List.product ns ss) T"
      by (simp_all add: register_each_Returns_iff)
    have s: "set ps = set (List.product ns ss)" using ps by simp
    have "fold (put_entry \<lparr>endState = t, action = a\<rparr>) ps T = T'"
      unfolding f by (rule fold_put_entry_set) (rule s)
    then show ?thesis using a s by (simp add: register_each_Returns_iff)
  qed
  show ?thesis using 1 2 3 by blast
qed

theorem bulk_registration_witness:
  "setTransition ''n1'' ''s1'' ''t'' (1 :: nat) empty_array
     = setTransitions [''n1''] [''s1''] ''t'' 1 empty_array
   \<and> setTransitions [''n1'', ''n2''] [''s1'', ''s2''] ''t'' 1 empty_array = Returns table_P4
   \<and> register_each [(''n1'', ''s1''), (''n1'', ''s2''), (''n2'', ''s1''), (''n2'', ''s2'')]
        ''t'' 1 empty_array = Returns table_P4
   \<and> register_each [(''n2'', ''s2''), (''n1'', ''s1''), (''n2'', ''s1''), (''n1'', ''s2'')]
        ''t'' 1 empty_array = Returns table_P4
   \<and> get_prop tableA ''go'' \<noteq> Absent \<and> get_prop tableA ''find'' \<noteq> Absent
   \<and> setTransitions [''go'', ''find''] [] ''t'' 1 tableA
        = register_each (List.product [''go'', ''find''] []) ''t'' 1 tableA"
proof -
  have r: "setTransitions [''n1'', ''n2''] [''s1'', ''s2''] ''t'' 1 empty_array = Returns table_P4"
    by (simp add: table_P4_def eval_defs)
  have s: "set [(''n2'', ''s2''), (''n1'', ''s1''), (''n2'', ''s1''), (''n1'', ''s2'')]
             = set [''n1'', ''n2''] \<times> set [''s1'', ''s2'']"
    by auto
  have p: "List.product [''n1'', ''n2''] [''s1'', ''s2'']
             = [(''n1'', ''s1''), (''n1'', ''s2''), (''n2'', ''s1''), (''n2'', ''s2'')]"
    by simp
  have g: "get_prop tableA ''go'' \<noteq> Absent" "get_prop tableA ''find'' \<noteq> Absent"
    by (simp_all add: tableA_def eval_defs)
  have 1: "setTransition ''n1'' ''s1'' ''t'' (1 :: nat) empty_array
             = setTransitions [''n1''] [''s1''] ''t'' 1 empty_array
           \<and> register_each [(''n1'', ''s1''), (''n1'', ''s2''), (''n2'', ''s1''), (''n2'', ''s2'')]
                ''t'' 1 empty_array = Returns table_P4
           \<and> register_each [(''n2'', ''s2''), (''n1'', ''s1''), (''n2'', ''s1''), (''n1'', ''s2'')]
                ''t'' 1 empty_array = Returns table_P4"
    using bulk_registration
            [where n = "''n1''" and s = "''s1''" and t = "''t''" and a = "1 :: nat"
               and T = empty_array and ns = "[''n1'', ''n2'']" and ss = "[''s1'', ''s2'']"
               and ps = "[(''n2'', ''s2''), (''n1'', ''s1''), (''n2'', ''s1''), (''n1'', ''s2'')]"
               and T' = table_P4]
          r s p
    by simp
  have 2: "setTransitions [''go'', ''find''] [] ''t'' 1 tableA
             = register_each (List.product [''go'', ''find''] []) ''t'' 1 tableA"
    using bulk_registration
            [where t = "''t''" and a = "1 :: nat" and T = tableA and ns = "[''go'', ''find'']"
               and ss = "[]"]
          g
    by simp
  show ?thesis
    by (intro conjI) (fact 1 [THEN conjunct1] r 1 [THEN conjunct2, THEN conjunct1]
                           1 [THEN conjunct2, THEN conjunct2] g 2)+
qed

subsection \<open>Registration after build\<close>

text \<open>
  C6, as stated, fails: \<^verbatim>\<open>build\<close> copies nothing, and the closures read the factory's one
  table when they are called. In Scenario A, \<^verbatim>\<open>go()\<close> on the runtime takes it to \<^verbatim>\<open>B\<close>
  with the first action; after \<^verbatim>\<open>setTransition('go', 'A', 'C', action2)\<close>, made once the
  runtime is built, \<^verbatim>\<open>go()\<close> on that runtime takes it to \<^verbatim>\<open>C\<close> with the second action.
\<close>

theorem build_freezes_counterexample:
  "fst (build ''A'' ((factory ([] :: (nat \<times> nat list) list))\<lparr>transitions := tableA\<rparr>)) = 0
   \<and> on_table (setTransition ''go'' ''A'' ''C'' 2) worldA
        = Returns (worldA\<lparr>transitions := tableA_later\<rparr>)
   \<and> observed 0 (newTransition record_call worldA 0 ''go'' ([] :: nat list))
        = Some (Str ''B'', [(1, [])])
   \<and> observed 0 (newTransition record_call (worldA\<lparr>transitions := tableA_later\<rparr>) 0 ''go''
                   ([] :: nat list))
        = Some (Str ''C'', [(2, [])])"
  by (simp add: worldA_def tableA_def tableA_later_def eval_defs)

text \<open>
  C6, amended. A registration made after \<^verbatim>\<open>build\<close> leaves every runtime object as it is,
  so the callables of a runtime are those of the names that had a row when it was built.
  What a callable does is read from the table at the call: once
  \<^verbatim>\<open>setTransition(n, s, t, a)\<close> has returned, the callable for \<open>n\<close> of a runtime built
  before, called in the state \<open>s\<close>, sets \<^verbatim>\<open>currentState\<close> of that runtime to \<open>t\<close>, changing
  nothing else, and then calls \<open>a\<close> with the arguments.
\<close>

theorem later_registration_reaches_built_runtime:
  assumes "heap w m n = Some (Closure m n)"
      and "current w m = Str s"
      and "on_table (setTransition n s t a) w = Returns w'"
  shows "heap w' = heap w
         \<and> (\<exists>w''. newTransition run w' m n args = run a args w''
                 \<and> current w'' m = Str t
                 \<and> heap w'' m = (heap w m)(''currentState'' \<mapsto> Str t)
                 \<and> (\<forall>r. r \<noteq> m \<longrightarrow> heap w'' r = heap w r)
                 \<and> transitions w'' = transitions w' \<and> ext w'' = ext w
                 \<and> next_ref w'' = next_ref w)"
proof -
  have h: "heap w' = heap w" "ext w' = ext w" "next_ref w' = next_ref w"
    using assms(3) by (simp_all add: on_table_heap)
  have "entry_at (transitions w') n s = Some \<lparr>endState = t, action = a\<rparr>"
    using on_table_transitions [OF assms(3)] by (rule setTransition_entry)
  moreover have "current w' m = Str s" using assms(2) h by (simp add: current_def)
  ultimately have "newTransition run w' m n args = run a args (set_current w' m (Str t))"
    by (rule newTransition_entry)
  moreover have "current (set_current w' m (Str t)) m = Str t"
    by (simp add: current_def set_current_def)
  ultimately have "\<exists>w''. newTransition run w' m n args = run a args w''
                 \<and> current w'' m = Str t
                 \<and> heap w'' m = (heap w m)(''currentState'' \<mapsto> Str t)
                 \<and> (\<forall>r. r \<noteq> m \<longrightarrow> heap w'' r = heap w r)
                 \<and> transitions w'' = transitions w' \<and> ext w'' = ext w
                 \<and> next_ref w'' = next_ref w"
    using h by (intro exI [of _ "set_current w' m (Str t)"]) (simp add: set_current_def)
  then show ?thesis using h by simp
qed

theorem later_registration_reaches_built_runtime_witness:
  "heap worldA 0 ''go'' = Some (Closure 0 ''go'')
   \<and> current worldA 0 = Str ''A''
   \<and> on_table (setTransition ''go'' ''A'' ''C'' 2) worldA
        = Returns (worldA\<lparr>transitions := tableA_later\<rparr>)
   \<and> heap (worldA\<lparr>transitions := tableA_later\<rparr>) = heap worldA
   \<and> observed 0 (newTransition record_call (worldA\<lparr>transitions := tableA_later\<rparr>) 0 ''go''
                   [9 :: nat])
        = Some (Str ''C'', [(2, [9])])"
proof -
  have h: "heap worldA 0 ''go'' = Some (Closure 0 ''go'')"
    by (simp add: worldA_def tableA_def eval_defs)
  have c: "current worldA 0 = Str ''A''"
    by (simp add: worldA_def tableA_def eval_defs)
  have r: "on_table (setTransition ''go'' ''A'' ''C'' 2) worldA
             = Returns (worldA\<lparr>transitions := tableA_later\<rparr>)"
    by (simp add: worldA_def tableA_def tableA_later_def eval_defs)
  have x: "ext worldA = []"
    by (simp add: worldA_def eval_defs)
  obtain w'' where 0: "heap (worldA\<lparr>transitions := tableA_later\<rparr>) = heap worldA"
    and 1: "newTransition record_call (worldA\<lparr>transitions := tableA_later\<rparr>) 0 ''go'' [9 :: nat]
              = record_call 2 [9] w''"
    and 2: "current w'' 0 = Str ''C''" and 3: "ext w'' = ext worldA"
    using later_registration_reaches_built_runtime [OF h c r, of record_call "[9 :: nat]"]
    by blast
  have "observed 0 (newTransition record_call (worldA\<lparr>transitions := tableA_later\<rparr>) 0 ''go''
                      [9 :: nat])
          = Some (Str ''C'', [(2, [9])])"
    using 2 3 x unfolding 1 by (simp add: observed_def record_call_def current_def)
  then show ?thesis using h c r 0 by simp
qed

subsection \<open>What build returns\<close>

text \<open>
  C7. The runtime should hold \<^verbatim>\<open>initialState\<close> in \<^verbatim>\<open>currentState\<close> and one callable per
  name that was registered (\<open>build_callables\<close> gives the properties of the new object).
  The callables are stored in the object that holds \<^verbatim>\<open>currentState\<close>, under the names
  themselves: after \<^verbatim>\<open>setTransition('currentState', 'A', 'B', action1)\<close>, \<^verbatim>\<open>build('A')\<close>
  returns a runtime whose \<^verbatim>\<open>currentState\<close> is the callable, not \<^verbatim>\<open>'A'\<close>. And a name that
  arrays inherit gets no row, hence no callable:
  \<^verbatim>\<open>setTransitions(['constructor'], [], 'B', action1)\<close> returns with the table as it was.
\<close>

theorem build_with_currentState_name:
  "setTransition ''currentState'' ''A'' ''B'' 1 empty_array = Returns tableCS
   \<and> fst (build ''A'' ((factory ([] :: (nat \<times> nat list) list))\<lparr>transitions := tableCS\<rparr>)) = 0
   \<and> current worldCS 0 = Closure 0 ''currentState''
   \<and> setTransitions [''constructor''] [] ''B'' (1 :: nat) empty_array = Returns empty_array
   \<and> heap (snd (build ''A'' (factory ([] :: (nat \<times> nat list) list)) ::
                 nat \<times> (nat, (nat \<times> nat list) list) world)) 0 ''constructor'' = None"
  by (simp add: worldCS_def tableCS_def eval_defs)

text \<open>
  C10. When the table has a row for the name \<^verbatim>\<open>currentState\<close>, the runtime that \<^verbatim>\<open>build\<close>
  returns holds the callable made for that name in its \<^verbatim>\<open>currentState\<close> property, not the
  initial state.
\<close>

theorem currentState_overwritten:
  assumes "get_prop (transitions w) ''currentState'' = Own r"
      and "build initialState w = (m, w')"
  shows "heap w' m ''currentState'' = Some (Closure m ''currentState'')
         \<and> current w' m \<noteq> Str initialState"
  using assms by (auto simp: build_def Let_def current_def get_prop_Own_iff)

theorem currentState_overwritten_witness:
  "setTransition ''currentState'' ''A'' ''B'' 1 empty_array = Returns tableCS
   \<and> get_prop tableCS ''currentState''
        = Own \<lparr>own = [''A'' \<mapsto> \<lparr>endState = ''B'', action = 1\<rparr>], len = 0\<rparr>
   \<and> build ''A'' ((factory ([] :: (nat \<times> nat list) list))\<lparr>transitions := tableCS\<rparr>) = (0, worldCS)
   \<and> heap worldCS 0 ''currentState'' = Some (Closure 0 ''currentState'')
   \<and> current worldCS 0 \<noteq> Str ''A''"
proof -
  let ?w = "(factory ([] :: (nat \<times> nat list) list))\<lparr>transitions := tableCS\<rparr>"
  have s: "setTransition ''currentState'' ''A'' ''B'' 1 empty_array = Returns tableCS"
    by (simp add: tableCS_def eval_defs)
  have g: "get_prop (transitions ?w) ''currentState''
             = Own \<lparr>own = [''A'' \<mapsto> \<lparr>endState = ''B'', action = 1\<rparr>], len = 0\<rparr>"
    by (simp add: tableCS_def eval_defs)
  have b: "build ''A'' ?w = (0, worldCS)"
    by (simp add: worldCS_def eval_defs)
  show ?thesis
    using currentState_overwritten [OF g b] s g b by simp
qed

subsection \<open>Registration with an empty list\<close>

text \<open>
  C8, as stated, fails for an empty \<^verbatim>\<open>fromStates\<close>: the row of a new name is made before
  the loop over the states, so \<^verbatim>\<open>setTransitions(['go'], [], 'B', action1)\<close> on a new factory
  changes the table, and a runtime built afterwards has the callable \<^verbatim>\<open>go\<close>, which a
  runtime built without that call has not.
\<close>

theorem empty_states_counterexample:
  "setTransitions [''go''] [] ''B'' 1 empty_array = Returns table_go_only
   \<and> table_go_only \<noteq> empty_array
   \<and> heap (snd (build ''A'' (factory ([] :: nat list)) :: nat \<times> (nat, nat list) world)) 0 ''go''
        = None
   \<and> heap (snd (build ''A'' ((factory ([] :: nat list))\<lparr>transitions := table_go_only\<rparr>))) 0 ''go''
        = Some (Closure 0 ''go'')"
  by (simp add: table_go_only_def eval_defs)

text \<open>
  C8, amended. With no names the call changes nothing. With names and no states it adds
  no entry and changes none, and it makes an empty row for each name that reads
  \<^verbatim>\<open>undefined\<close> in the table (a name with no row that arrays do not inherit and that is not
  \<^verbatim>\<open>length\<close>); the other rows are as they were. A runtime built afterwards has a callable
  for each of these names, and is otherwise the runtime that would have been built without
  the call.
\<close>

theorem empty_lists_registration:
  "setTransitions [] ss t a T = Returns T
   \<and> (\<exists>T'. setTransitions ns [] t a T = Returns T'
         \<and> (\<forall>n s. entry_at T' n s = entry_at T n s)
         \<and> (\<forall>n. own T' n = (if n \<in> set ns \<and> get_prop T n = Absent then Some empty_array
                             else own T n))
         \<and> (\<forall>i w n. heap (snd (build i (w\<lparr>transitions := T'\<rparr>))) (next_ref w) n
                = (if n \<in> set ns \<and> get_prop T n = Absent then Some (Closure (next_ref w) n)
                   else heap (snd (build i (w\<lparr>transitions := T\<rparr>))) (next_ref w) n)))"
  by (simp add: setTransitions_def addPending_no_states own_fold_ensure_row
                entry_at_fold_ensure_row build_def Let_def)

theorem empty_lists_registration_witness:
  "setTransitions [] [''A''] ''B'' 1 tableA = Returns tableA
   \<and> setTransitions [''go'', ''stop'', ''push'', ''find'', ''length''] [] ''B'' 1 tableA
        = Returns (tableA\<lparr>own := (own tableA)(''stop'' \<mapsto> empty_array)\<rparr>)
   \<and> entry_at (tableA\<lparr>own := (own tableA)(''stop'' \<mapsto> empty_array)\<rparr>) ''go'' ''A''
        = Some \<lparr>endState = ''B'', action = 1\<rparr>
   \<and> own (tableA\<lparr>own := (own tableA)(''stop'' \<mapsto> empty_array)\<rparr>) ''push'' = None
   \<and> own (tableA\<lparr>own := (own tableA)(''stop'' \<mapsto> empty_array)\<rparr>) ''find'' = None"
proof -
  let ?T = "tableA\<lparr>own := (own tableA)(''stop'' \<mapsto> empty_array)\<rparr>"
  have r: "setTransitions [''go'', ''stop'', ''push'', ''find'', ''length''] [] ''B'' 1 tableA = Returns ?T"
    by (simp add: tableA_def eval_defs)
  have e: "entry_at tableA ''go'' ''A'' = Some \<lparr>endState = ''B'', action = 1\<rparr>"
    by (simp add: tableA_def eval_defs)
  have p: "own tableA ''push'' = None" "own tableA ''find'' = None"
    by (simp_all add: tableA_def)
  obtain T' where 1: "setTransitions [] [''A''] ''B'' 1 tableA = Returns tableA"
    and 2: "setTransitions [''go'', ''stop'', ''push'', ''find'', ''length''] [] ''B'' 1 tableA = Returns T'"
    and 3: "\<forall>n s. entry_at T' n s = entry_at tableA n s"
    using empty_lists_registration
            [where ss = "[''A'']" and t = "''B''" and a = "1 :: nat" and T = tableA
               and ns = "[''go'', ''stop'', ''push'', ''find'', ''length'']"]
    by blast
  have "T' = ?T" using 2 r by simp
  then show ?thesis using 1 r 3 e p by simp
qed

subsection \<open>Two runtimes of one factory\<close>



lemma newTransition_next_ref:
  assumes "\<And>a args w'. \<exists>w''. world_of (run a args w') = Some w'' \<and> next_ref w'' = next_ref w'"
      and "world_of (newTransition run w m n args) = Some w'"
  shows "next_ref w' = next_ref w"
proof -
  have s: "next_ref (set_current w m v) = next_ref w" for v
    by (simp add: set_current_def)
  have r: "world_of (run a args' w1) = Some w' \<Longrightarrow> next_ref w' = next_ref w1" for a args' w1
    using assms(1) [of a args' w1] by auto
  show ?thesis
    using assms(2) s r
    by (auto simp: newTransition_def split: slot.splits if_splits)
qed




end
